theory Spec2Isabelle
  imports Main "HOL-Library.AList"
begin

section \<open>Shared schema (shared/schema.ts)\<close>

text \<open>
  The table \<open>items\<close> has the columns \<open>id\<close> (serial), \<open>name\<close> (text, not null),
  \<open>category\<close> (text, not null) and \<open>completed\<close> (boolean, not null, default false).
  \<open>Item\<close> is the select type of that table. JavaScript numbers that hold ids are
  modelled as unbounded integers (the counter stays far below \<open>2^53\<close>, where the
  two agree), and JavaScript strings as lists of 8-bit code units.
\<close>

record Item =
  id' :: int
  name :: string
  category :: string
  completed :: bool

text \<open>
  \<open>InsertItem\<close> is the type inferred from \<open>insertItemSchema\<close>: \<open>name\<close> and
  \<open>category\<close> are required strings, \<open>completed\<close> may be undefined (\<open>None\<close>).
\<close>

record InsertItem =
  name :: string
  category :: string
  completed :: "bool option"

section \<open>The item store (server/storage.ts)\<close>

text \<open>
  \<open>UpdateItemData\<close>: every field is optional; \<open>None\<close> is JavaScript's \<open>undefined\<close>.
\<close>

record UpdateItemData =
  completed :: "bool option"
  category :: "string option"
  name :: "string option"

text \<open>
  A JavaScript \<open>Map\<close> iterates in insertion order, \<open>set\<close> on a key that is present
  replaces the value in place and \<open>set\<close> on a new key appends. An association list
  with \<open>AList.update\<close> behaves the same way.
\<close>

type_synonym ('k, 'v) js_map = "('k \<times> 'v) list"

definition Map_get :: "('k, 'v) js_map \<Rightarrow> 'k \<Rightarrow> 'v option" where
  "Map_get m k = map_of m k"

definition Map_has :: "('k, 'v) js_map \<Rightarrow> 'k \<Rightarrow> bool" where
  "Map_has m k = (map_of m k \<noteq> None)"

definition Map_set :: "'k \<Rightarrow> 'v \<Rightarrow> ('k, 'v) js_map \<Rightarrow> ('k, 'v) js_map" where
  "Map_set k v m = AList.update k v m"

definition Map_delete :: "'k \<Rightarrow> ('k, 'v) js_map \<Rightarrow> ('k, 'v) js_map" where
  "Map_delete k m = AList.delete k m"

definition Map_values :: "('k, 'v) js_map \<Rightarrow> 'v list" where
  "Map_values m = map snd m"

datatype error = Error string

record MemStorage =
  items :: "(int, Item) js_map"
  currentId :: int

text \<open>The constructor: an empty map, and the counter at 1.\<close>

definition MemStorage_new :: MemStorage where
  "MemStorage_new = \<lparr>items = [], currentId = 1\<rparr>"

definition getItems :: "MemStorage \<Rightarrow> Item list" where
  "getItems s = Map_values (items s)"

text \<open>
  \<open>createItem\<close>: \<open>const id = this.currentId++\<close>, then the item is the spread of the
  input with \<open>id\<close> and \<open>completed: insertItem.completed ?? false\<close>.
\<close>

definition createItem :: "InsertItem \<Rightarrow> MemStorage \<Rightarrow> Item \<times> MemStorage" where
  "createItem insertItem s =
     (let i = currentId s;
          item = \<lparr>id' = i,
                  name = InsertItem.name insertItem,
                  category = InsertItem.category insertItem,
                  completed = (case InsertItem.completed insertItem of
                                 None \<Rightarrow> False | Some b \<Rightarrow> b)\<rparr>
      in (item, \<lparr>items = Map_set i item (items s), currentId = currentId s + 1\<rparr>))"

text \<open>
  \<open>updateItem\<close>: throws when the id is absent, before anything is written. Otherwise
  the three conditional spreads overwrite a field exactly when the datum is not
  \<open>undefined\<close>.
\<close>

definition merge :: "Item \<Rightarrow> UpdateItemData \<Rightarrow> Item" where
  "merge item data =
     (let item1 = (case UpdateItemData.completed data of
                     None \<Rightarrow> item | Some b \<Rightarrow> item\<lparr>Item.completed := b\<rparr>);
          item2 = (case UpdateItemData.category data of
                     None \<Rightarrow> item1 | Some c \<Rightarrow> item1\<lparr>Item.category := c\<rparr>);
          item3 = (case UpdateItemData.name data of
                     None \<Rightarrow> item2 | Some n \<Rightarrow> item2\<lparr>Item.name := n\<rparr>)
      in item3)"

definition updateItem ::
  "int \<Rightarrow> UpdateItemData \<Rightarrow> MemStorage \<Rightarrow> (error + Item) \<times> MemStorage" where
  "updateItem i data s =
     (case Map_get (items s) i of
        None \<Rightarrow> (Inl (Error ''Item not found''), s)
      | Some item \<Rightarrow>
          (let updatedItem = merge item data
           in (Inr updatedItem, s\<lparr>items := Map_set i updatedItem (items s)\<rparr>)))"

definition deleteItem :: "int \<Rightarrow> MemStorage \<Rightarrow> (error + unit) \<times> MemStorage" where
  "deleteItem i s =
     (if \<not> Map_has (items s) i then (Inl (Error ''Item not found''), s)
      else (Inr (), s\<lparr>items := Map_delete i (items s)\<rparr>))"

definition deleteAllItems :: "MemStorage \<Rightarrow> MemStorage" where
  "deleteAllItems s = s\<lparr>items := []\<rparr>"

subsection \<open>Sequences of store operations\<close>

text \<open>
  One process lifetime is a list of calls on the single \<open>storage\<close> object, starting
  from \<open>MemStorage_new\<close>. A call that throws leaves the object as it was and the next
  call goes on from there.
\<close>

datatype store_op =
    Create InsertItem
  | Update int UpdateItemData
  | Delete int
  | DeleteAll
  | GetItems

datatype outcome =
    Created Item
  | Updated Item
  | Deleted
  | Cleared
  | Listed "Item list"
  | Threw error

fun step :: "store_op \<Rightarrow> MemStorage \<Rightarrow> outcome \<times> MemStorage" where
  "step (Create d) s = (case createItem d s of (item, s') \<Rightarrow> (Created item, s'))"
| "step (Update i d) s =
     (case updateItem i d s of
        (Inl e, s') \<Rightarrow> (Threw e, s')
      | (Inr item, s') \<Rightarrow> (Updated item, s'))"
| "step (Delete i) s =
     (case deleteItem i s of
        (Inl e, s') \<Rightarrow> (Threw e, s')
      | (Inr u, s') \<Rightarrow> (Deleted, s'))"
| "step DeleteAll s = (Cleared, deleteAllItems s)"
| "step GetItems s = (Listed (getItems s), s)"

fun run :: "store_op list \<Rightarrow> MemStorage \<Rightarrow> outcome list \<times> MemStorage" where
  "run [] s = ([], s)"
| "run (x # xs) s =
     (case step x s of (out, s') \<Rightarrow>
        (case run xs s' of (outs, s'') \<Rightarrow> (out # outs, s'')))"

text \<open>The ids handed out by the creates of a run, in the order of the calls.\<close>

fun created_ids :: "outcome list \<Rightarrow> int list" where
  "created_ids [] = []"
| "created_ids (Created item # outs) = id' item # created_ids outs"
| "created_ids (_ # outs) = created_ids outs"

text \<open>
  The store invariant: keys are unique, every item is stored under its own id, and
  every key is at least 1 and below the counter, and the keys ascend.
\<close>

definition store_inv :: "MemStorage \<Rightarrow> bool" where
  "store_inv s \<longleftrightarrow>
     1 \<le> currentId s \<and>
     distinct (map fst (items s)) \<and>
     list_all (\<lambda>(k, item). id' item = k \<and> 1 \<le> k \<and> k < currentId s) (items s) \<and>
     sorted_wrt (<) (map fst (items s))"

section \<open>The category classifier (client/src/lib/categories.ts)\<close>

text \<open>
  The three letters of the table outside ASCII, as Latin-1 code units:
  U+00E4 (a with diaeresis), U+00E5 (a with ring) and U+00F6 (o with diaeresis).
\<close>

definition ae :: char where "ae = CHR 0xE4"
definition aa :: char where "aa = CHR 0xE5"
definition oe :: char where "oe = CHR 0xF6"

text \<open>
  \<open>categories\<close>, in declaration order, which is the order \<open>Object.entries\<close>
  enumerates the keys in.
\<close>

definition frukt :: string where "frukt = ''frukt''"
definition gronsaker :: string where "gronsaker = ''gr'' @ oe # ''nsaker''"
definition mejeri :: string where "mejeri = ''mejeri''"
definition kott :: string where "kott = ''k'' @ oe # ''tt''"
definition skafferi :: string where "skafferi = ''skafferi''"
definition snacks :: string where "snacks = ''snacks''"
definition dryck :: string where "dryck = ''dryck''"
definition hushall :: string where "hushall = ''hush'' @ aa # ''ll''"
definition ovrigt :: string where "ovrigt = oe # ''vrigt''"

definition categories :: "(string \<times> string list) list" where
  "categories =
    [(frukt, [ae # ''pple'', ''banan'', ''apelsin'', ''p'' @ ae # ''ron'', ''vindruvor'',
              ''citron'', ''lime'', ''jordgubbar'']),
     (gronsaker, [''morot'', ''potatis'', ''tomat'', ''l'' @ oe # ''k'', ''sallad'',
                  ''gurka'', ''broccoli'']),
     (mejeri, [''mj'' @ oe # ''lk'', ''ost'', ''yoghurt'', ''sm'' @ oe # ''r'',
               ''gr'' @ ae # ''dde'', ae # ''gg'']),
     (kott, [''kyckling'', ''n'' @ oe # ''tk'' @ oe # ''tt'', ''fl'' @ ae # ''sk'', ''fisk'',
             ''lax'', ''r'' @ ae # ''kor'']),
     (skafferi, [''ris'', ''pasta'', ''br'' @ oe # ''d'', ''mj'' @ oe # ''l'', ''socker'',
                 ''salt'', ''olja'']),
     (snacks, [''chips'', ''kakor'', ''godis'', ''choklad'', ''n'' @ oe # ''tter'']),
     (dryck, [''vatten'', ''juice'', ''l'' @ ae # ''sk'', ''kaffe'', ''te'']),
     (hushall, [''tv'' @ aa # ''l'', ''papper'', ''tv'' @ ae # ''ttmedel'',
                ''sopp'' @ aa # ''sar'', ''reng'' @ oe # ''ring'']),
     (ovrigt, [])]"

text \<open>
  \<open>String.prototype.toLowerCase\<close> on Latin-1 code units: A to Z, and U+00C0 to
  U+00DE except the multiplication sign U+00D7, move up by 32; every other code unit
  stays.
\<close>

definition lower_char :: "char \<Rightarrow> char" where
  "lower_char c =
     (let n = (of_char c :: nat)
      in if (65 \<le> n \<and> n \<le> 90) \<or> (192 \<le> n \<and> n \<le> 222 \<and> n \<noteq> 215)
         then char_of (n + 32) else c)"

definition toLowerCase :: "string \<Rightarrow> string" where
  "toLowerCase s = map lower_char s"

text \<open>\<open>s.includes(t)\<close>: \<open>t\<close> occurs in \<open>s\<close> as a contiguous run.\<close>

fun starts_with :: "string \<Rightarrow> string \<Rightarrow> bool" where
  "starts_with s [] = True"
| "starts_with [] (d # t) = False"
| "starts_with (c # s) (d # t) = (c = d \<and> starts_with s t)"

fun String_includes :: "string \<Rightarrow> string \<Rightarrow> bool" where
  "String_includes [] t = (t = [])"
| "String_includes (c # s) t = (starts_with (c # s) t \<or> String_includes s t)"

text \<open>\<open>items.some(item => lowercaseName.includes(item))\<close>\<close>

definition some_included :: "string \<Rightarrow> string list \<Rightarrow> bool" where
  "some_included lowercaseName keywords = list_ex (String_includes lowercaseName) keywords"

text \<open>The \<open>for ... of\<close> loop over the entries, with its early return.\<close>

fun first_category :: "(string \<times> string list) list \<Rightarrow> string \<Rightarrow> string" where
  "first_category [] lowercaseName = ovrigt"
| "first_category ((key, keywords) # entries) lowercaseName =
     (if some_included lowercaseName keywords then key
      else first_category entries lowercaseName)"

definition categorizeItem :: "string \<Rightarrow> string" where
  "categorizeItem itemName = first_category categories (toLowerCase itemName)"

section \<open>Request validation (server/routes.ts, shared/schema.ts)\<close>

text \<open>
  A parsed JSON request body. Numbers only ever matter here as values that are neither
  text nor boolean. An object is its list of properties; a property lookup is
  \<open>map_of\<close>, and \<open>None\<close> is \<open>undefined\<close>.
\<close>

datatype json =
    JNull
  | JBool bool
  | JNumber int
  | JString string
  | JArray "json list"
  | JObject "(string \<times> json) list"

datatype 'a SafeParseResult = Failure | Success 'a

text \<open>
  The zod checks that the two schemas are built from: \<open>z.string()\<close> accepts exactly
  the values of type string (the empty string among them), \<open>z.boolean()\<close> exactly the
  booleans, and \<open>.optional()\<close> accepts \<open>undefined\<close> besides.
\<close>

fun z_string :: "json option \<Rightarrow> string SafeParseResult" where
  "z_string (Some (JString s)) = Success s"
| "z_string _ = Failure"

fun z_boolean :: "json option \<Rightarrow> bool SafeParseResult" where
  "z_boolean (Some (JBool b)) = Success b"
| "z_boolean _ = Failure"

fun z_optional ::
  "(json option \<Rightarrow> 'a SafeParseResult) \<Rightarrow> json option \<Rightarrow> 'a option SafeParseResult" where
  "z_optional p None = Success None"
| "z_optional p (Some v) =
     (case p (Some v) of Failure \<Rightarrow> Failure | Success x \<Rightarrow> Success (Some x))"

text \<open>
  \<open>insertItemSchema = createInsertSchema(items).pick({name, category, completed})\<close>.
  drizzle-zod turns a not-null text column into \<open>z.string()\<close> and a not-null boolean
  column that has a default into \<open>z.boolean().optional()\<close>; an object schema accepts
  only objects and drops the properties it does not name.
\<close>

fun insertItemSchema_safeParse :: "json \<Rightarrow> InsertItem SafeParseResult" where
  "insertItemSchema_safeParse (JObject props) =
     (case z_string (map_of props ''name'') of
        Failure \<Rightarrow> Failure
      | Success n \<Rightarrow>
          (case z_string (map_of props ''category'') of
             Failure \<Rightarrow> Failure
           | Success c \<Rightarrow>
               (case z_optional z_boolean (map_of props ''completed'') of
                  Failure \<Rightarrow> Failure
                | Success d \<Rightarrow>
                    Success \<lparr>InsertItem.name = n, category = c, completed = d\<rparr>)))"
| "insertItemSchema_safeParse _ = Failure"

text \<open>
  \<open>updateItemSchema = z.object({completed: z.boolean().optional(),
  category: z.string().optional(), name: z.string().optional()})\<close>
\<close>

fun updateItemSchema_safeParse :: "json \<Rightarrow> UpdateItemData SafeParseResult" where
  "updateItemSchema_safeParse (JObject props) =
     (case z_optional z_boolean (map_of props ''completed'') of
        Failure \<Rightarrow> Failure
      | Success d \<Rightarrow>
          (case z_optional z_string (map_of props ''category'') of
             Failure \<Rightarrow> Failure
           | Success c \<Rightarrow>
               (case z_optional z_string (map_of props ''name'') of
                  Failure \<Rightarrow> Failure
                | Success n \<Rightarrow>
                    Success \<lparr>UpdateItemData.completed = d, category = c, name = n\<rparr>)))"
| "updateItemSchema_safeParse _ = Failure"

text \<open>
  \<open>parseInt(s)\<close> with no radix: leading white space is dropped, then an optional sign,
  then a \<open>0x\<close> or \<open>0X\<close> prefix selects radix 16 (radix 10 otherwise); the longest
  run of digits of that radix is the number, whatever follows it; with no digit the
  result is \<open>NaN\<close>, here \<open>None\<close>, so that \<open>isNaN(id)\<close> is \<open>id = None\<close>.
\<close>

definition isWhiteSpace :: "char \<Rightarrow> bool" where
  "isWhiteSpace c = ((of_char c :: nat) \<in> {9, 10, 11, 12, 13, 32, 160})"

definition digit_value :: "char \<Rightarrow> nat" where
  "digit_value c =
     (let n = (of_char c :: nat)
      in if 48 \<le> n \<and> n \<le> 57 then n - 48
         else if 97 \<le> n \<and> n \<le> 122 then n - 87
         else if 65 \<le> n \<and> n \<le> 90 then n - 55
         else 36)"

definition is_digit :: "nat \<Rightarrow> char \<Rightarrow> bool" where
  "is_digit R c = (digit_value c < R)"

definition digits_value :: "nat \<Rightarrow> string \<Rightarrow> nat" where
  "digits_value R Z = foldl (\<lambda>acc c. acc * R + digit_value c) 0 Z"

fun strip_sign :: "string \<Rightarrow> int \<times> string" where
  "strip_sign [] = (1, [])"
| "strip_sign (c # S) =
     (if c = CHR ''-'' then (- 1, S) else if c = CHR ''+'' then (1, S) else (1, c # S))"

fun strip_prefix :: "string \<Rightarrow> nat \<times> string" where
  "strip_prefix (c # d # S) =
     (if c = CHR ''0'' \<and> (d = CHR ''x'' \<or> d = CHR ''X'') then (16, S) else (10, c # d # S))"
| "strip_prefix S = (10, S)"

definition parseInt :: "string \<Rightarrow> int option" where
  "parseInt inputString =
     (case strip_sign (dropWhile isWhiteSpace inputString) of (sign, S) \<Rightarrow>
        (case strip_prefix S of (R, S') \<Rightarrow>
           (let Z = takeWhile (is_digit R) S'
            in if Z = [] then None else Some (sign * int (digits_value R Z)))))"

section \<open>The broadcast channel and the routes (server/routes.ts)\<close>

text \<open>
  A socket object has its \<open>readyState\<close>; whether a call of \<open>send\<close> on it throws is
  decided by the transport, outside this code, and is a field of the model. Sockets
  are referred to by handle; \<open>clients\<close> is the \<open>Set\<close> of tracked handles, in
  insertion order.
\<close>

datatype readyState = CONNECTING | OPEN | CLOSING | CLOSED

record WebSocket =
  readyState :: readyState
  send_throws :: bool

type_synonym ws = nat

definition Set_add :: "'a \<Rightarrow> 'a list \<Rightarrow> 'a list" where
  "Set_add x xs = (if x \<in> set xs then xs else xs @ [x])"

definition Set_delete :: "'a \<Rightarrow> 'a list \<Rightarrow> 'a list" where
  "Set_delete x xs = removeAll x xs"

text \<open>
  The object handed to \<open>JSON.stringify\<close>. The text that is sent is a function of this
  object alone, and the model keeps the object.
\<close>

record message =
  msg_type :: string
  msg_items :: "Item list"

text \<open>
  What the server does that can be observed from outside: a call of
  \<open>broadcastUpdate\<close>, a call of \<open>storage.getItems\<close>, a \<open>send\<close> that returned, and a
  \<open>send\<close> that threw.
\<close>

datatype event =
    Notify
  | StoreRead
  | Sent ws message
  | SendError ws

record server =
  storage :: MemStorage
  clients :: "ws list"
  sockets :: "ws \<Rightarrow> WebSocket"
  trace :: "event list"

text \<open>
  The body of \<open>forEach\<close>, over the array copied from \<open>clients\<close> before the loop: a
  socket that is not open is passed over; a \<open>send\<close> that throws is caught and the
  socket is deleted from \<open>clients\<close>, and the loop goes on.
\<close>

fun forEach_send :: "message \<Rightarrow> ws list \<Rightarrow> server \<Rightarrow> server" where
  "forEach_send msg [] sv = sv"
| "forEach_send msg (client # rest) sv =
     forEach_send msg rest
       (if readyState (sockets sv client) = OPEN then
          (if send_throws (sockets sv client)
           then sv\<lparr>clients := Set_delete client (clients sv),
                   trace := trace sv @ [SendError client]\<rparr>
           else sv\<lparr>trace := trace sv @ [Sent client msg]\<rparr>)
        else sv)"

definition broadcastUpdate :: "server \<Rightarrow> server" where
  "broadcastUpdate sv =
     (let sv1 = sv\<lparr>trace := trace sv @ [Notify, StoreRead]\<rparr>;
          its = getItems (storage sv1);
          msg = \<lparr>msg_type = ''UPDATE'', msg_items = its\<rparr>
      in forEach_send msg (clients sv1) sv1)"

text \<open>The events that one call of \<open>broadcastUpdate\<close> adds to the trace.\<close>

definition broadcast_events :: "server \<Rightarrow> event list" where
  "broadcast_events sv = drop (length (trace sv)) (trace (broadcastUpdate sv))"

definition notifications :: "server \<Rightarrow> nat" where
  "notifications sv = count_list (trace sv) Notify"

text \<open>The socket server's handlers: \<open>connection\<close>, \<open>close\<close> and \<open>error\<close>.\<close>

definition on_connection :: "ws \<Rightarrow> server \<Rightarrow> server" where
  "on_connection w sv = broadcastUpdate (sv\<lparr>clients := Set_add w (clients sv)\<rparr>)"

definition on_close :: "ws \<Rightarrow> server \<Rightarrow> server" where
  "on_close w sv = sv\<lparr>clients := Set_delete w (clients sv)\<rparr>"

definition on_error :: "ws \<Rightarrow> server \<Rightarrow> server" where
  "on_error w sv = sv\<lparr>clients := Set_delete w (clients sv)\<rparr>"

subsection \<open>REST endpoints\<close>

datatype res_body =
    ItemBody Item
  | ItemsBody "Item list"
  | MessageBody string
  | NoBody

record response =
  status :: nat
  body :: res_body

definition get_items :: "server \<Rightarrow> response \<times> server" where
  "get_items sv =
     (\<lparr>status = 200, body = ItemsBody (getItems (storage sv))\<rparr>,
      sv\<lparr>trace := trace sv @ [StoreRead]\<rparr>)"

definition post_items :: "json \<Rightarrow> server \<Rightarrow> response \<times> server" where
  "post_items reqBody sv =
     (case insertItemSchema_safeParse reqBody of
        Failure \<Rightarrow> (\<lparr>status = 400, body = MessageBody ''Invalid item data''\<rparr>, sv)
      | Success d \<Rightarrow>
          (case createItem d (storage sv) of (item, st) \<Rightarrow>
             (\<lparr>status = 200, body = ItemBody item\<rparr>,
              broadcastUpdate (sv\<lparr>storage := st\<rparr>))))"

definition patch_item :: "string \<Rightarrow> json \<Rightarrow> server \<Rightarrow> response \<times> server" where
  "patch_item idParam reqBody sv =
     (case parseInt idParam of
        None \<Rightarrow> (\<lparr>status = 400, body = MessageBody ''Invalid ID''\<rparr>, sv)
      | Some i \<Rightarrow>
          (case updateItemSchema_safeParse reqBody of
             Failure \<Rightarrow> (\<lparr>status = 400, body = MessageBody ''Invalid update data''\<rparr>, sv)
           | Success d \<Rightarrow>
               (case updateItem i d (storage sv) of
                  (Inr item, st) \<Rightarrow>
                    (\<lparr>status = 200, body = ItemBody item\<rparr>,
                     broadcastUpdate (sv\<lparr>storage := st\<rparr>))
                | (Inl (Error m), st) \<Rightarrow>
                    (if m = ''Item not found''
                     then \<lparr>status = 404, body = MessageBody ''Item not found''\<rparr>
                     else \<lparr>status = 500, body = MessageBody ''Failed to update item''\<rparr>,
                     sv\<lparr>storage := st\<rparr>))))"

definition delete_item :: "string \<Rightarrow> server \<Rightarrow> response \<times> server" where
  "delete_item idParam sv =
     (case parseInt idParam of
        None \<Rightarrow> (\<lparr>status = 400, body = MessageBody ''Invalid ID''\<rparr>, sv)
      | Some i \<Rightarrow>
          (case deleteItem i (storage sv) of
             (Inr u, st) \<Rightarrow>
               (\<lparr>status = 204, body = NoBody\<rparr>, broadcastUpdate (sv\<lparr>storage := st\<rparr>))
           | (Inl (Error m), st) \<Rightarrow>
               (if m = ''Item not found''
                then \<lparr>status = 404, body = MessageBody ''Item not found''\<rparr>
                else \<lparr>status = 500, body = MessageBody ''Failed to delete item''\<rparr>,
                sv\<lparr>storage := st\<rparr>)))"

definition delete_items :: "server \<Rightarrow> response \<times> server" where
  "delete_items sv =
     (\<lparr>status = 204, body = NoBody\<rparr>,
      broadcastUpdate (sv\<lparr>storage := deleteAllItems (storage sv)\<rparr>))"

text \<open>The four mutating requests, and the handler each is routed to.\<close>

datatype request =
    POST_items json
  | PATCH_item string json
  | DELETE_item string
  | DELETE_items

fun handle :: "request \<Rightarrow> server \<Rightarrow> response \<times> server" where
  "handle (POST_items reqBody) sv = post_items reqBody sv"
| "handle (PATCH_item idParam reqBody) sv = patch_item idParam reqBody sv"
| "handle (DELETE_item idParam) sv = delete_item idParam sv"
| "handle DELETE_items sv = delete_items sv"

text \<open>
  A request passes when its body is valid, its id parses, and the store holds the id;
  deleting everything always passes.
\<close>

fun passes :: "request \<Rightarrow> server \<Rightarrow> bool" where
  "passes (POST_items reqBody) sv = (insertItemSchema_safeParse reqBody \<noteq> Failure)"
| "passes (PATCH_item idParam reqBody) sv =
     (case parseInt idParam of
        None \<Rightarrow> False
      | Some i \<Rightarrow> updateItemSchema_safeParse reqBody \<noteq> Failure
                  \<and> Map_has (items (storage sv)) i)"
| "passes (DELETE_item idParam) sv =
     (case parseInt idParam of
        None \<Rightarrow> False
      | Some i \<Rightarrow> Map_has (items (storage sv)) i)"
| "passes DELETE_items sv = True"

text \<open>The server as the process starts it: an empty store and no connection.\<close>

definition server_new :: server where
  "server_new =
     \<lparr>storage = MemStorage_new, clients = [],
      sockets = (\<lambda>w. \<lparr>readyState = CLOSED, send_throws = False\<rparr>), trace = []\<rparr>"

section \<open>Reference models\<close>

text \<open>
  The list of items as the specification describes it, replayed over a sequence of
  operations: a create appends the new item under the next id, an update merges into
  the item that has the id and leaves every item in its place, a delete drops the
  item that has the id, and deleting everything empties the list.
\<close>

fun spec_replay :: "store_op list \<Rightarrow> int \<Rightarrow> Item list \<Rightarrow> Item list" where
  "spec_replay [] n xs = xs"
| "spec_replay (Create d # ops) n xs =
     spec_replay ops (n + 1)
       (xs @ [\<lparr>id' = n, name = InsertItem.name d, category = InsertItem.category d,
               completed = (case InsertItem.completed d of None \<Rightarrow> False | Some b \<Rightarrow> b)\<rparr>])"
| "spec_replay (Update i u # ops) n xs =
     spec_replay ops n (map (\<lambda>item. if id' item = i then merge item u else item) xs)"
| "spec_replay (Delete i # ops) n xs =
     spec_replay ops n (filter (\<lambda>item. id' item \<noteq> i) xs)"
| "spec_replay (DeleteAll # ops) n xs = spec_replay ops n []"
| "spec_replay (GetItems # ops) n xs = spec_replay ops n xs"

text \<open>
  A keyword matches a name when it occurs in it with the case of letters ignored; a
  category matches when one of its keywords does.
\<close>

definition keyword_matches :: "string \<Rightarrow> string \<Rightarrow> bool" where
  "keyword_matches itemName keyword =
     String_includes (toLowerCase itemName) (toLowerCase keyword)"

definition category_matches :: "string \<Rightarrow> string \<times> string list \<Rightarrow> bool" where
  "category_matches itemName entry = list_ex (keyword_matches itemName) (snd entry)"

text \<open>
  What one pass of the loop over the tracked sockets does, socket by socket: nothing for
  a socket that is not open, a message for an open socket whose \<open>send\<close> returns, an
  error for an open socket whose \<open>send\<close> throws.
\<close>

definition pushes :: "message \<Rightarrow> (ws \<Rightarrow> WebSocket) \<Rightarrow> ws list \<Rightarrow> event list" where
  "pushes msg socks cs =
     concat (map (\<lambda>c. if readyState (socks c) = OPEN
                        then (if send_throws (socks c) then [SendError c] else [Sent c msg])
                        else []) cs)"

text \<open>The message of a broadcast in a given state.\<close>

definition update_message :: "server \<Rightarrow> message" where
  "update_message sv = \<lparr>msg_type = ''UPDATE'', msg_items = getItems (storage sv)\<rparr>"

text \<open>A server that tracks one socket, which is closing.\<close>

definition closing_server :: server where
  "closing_server =
     \<lparr>storage = MemStorage_new, clients = [0],
      sockets = (\<lambda>w. \<lparr>readyState = CLOSING, send_throws = False\<rparr>), trace = []\<rparr>"

text \<open>A server that tracks three sockets: one open, one whose send throws, one closing.\<close>

definition three_sockets :: "ws \<Rightarrow> WebSocket" where
  "three_sockets w =
     (if w = 0 then \<lparr>readyState = OPEN, send_throws = True\<rparr>
      else if w = 1 then \<lparr>readyState = CLOSING, send_throws = False\<rparr>
      else \<lparr>readyState = OPEN, send_throws = False\<rparr>)"

definition three_server :: server where
  "three_server =
     \<lparr>storage = MemStorage_new, clients = [0, 1, 2], sockets = three_sockets, trace = []\<rparr>"

section \<open>Properties of the item store\<close>

subsection \<open>The invariant\<close>

lemma update_absent: "k \<notin> fst ` set al \<Longrightarrow> AList.update k v al = al @ [(k, v)]"
  by (induction al) auto

lemma set_update_subset: "set (AList.update k v al) \<subseteq> insert (k, v) (set al)"
  by (induction al) auto

lemma id_merge [simp]: "id' (merge item d) = id' item"
  by (simp add: merge_def Let_def split: option.splits)

lemma store_inv_new: "store_inv MemStorage_new"
  by (simp add: store_inv_def MemStorage_new_def)

lemma keys_below: "store_inv s \<Longrightarrow> k \<in> fst ` set (items s) \<Longrightarrow> 1 \<le> k \<and> k < currentId s"
  by (auto simp: store_inv_def list_all_iff)

lemma createItem_items:
  assumes "store_inv s"
  shows "items (snd (createItem d s)) = items s @ [(currentId s, fst (createItem d s))]"
proof -
  have "currentId s \<notin> fst ` set (items s)"
    using keys_below [OF assms, of "currentId s"] by auto
  then show ?thesis
    by (simp add: createItem_def Let_def Map_set_def update_absent)
qed

lemma createItem_facts:
  "id' (fst (createItem d s)) = currentId s"
  "currentId (snd (createItem d s)) = currentId s + 1"
  by (simp_all add: createItem_def Let_def)

lemma store_inv_createItem:
  assumes "store_inv s"
  shows "store_inv (snd (createItem d s))"
proof -
  have k: "\<forall>k \<in> set (map fst (items s)). k < currentId s"
    using keys_below [OF assms] by auto
  show ?thesis
    using assms k
    unfolding store_inv_def createItem_items [OF assms] createItem_facts
    by (auto simp: list_all_iff sorted_wrt_append createItem_facts)
qed

lemma stored_id: "store_inv s \<Longrightarrow> (k, item) \<in> set (items s) \<Longrightarrow> id' item = k"
  by (auto simp: store_inv_def list_all_iff)

lemma updateItem_absent:
  "Map_get (items s) i = None \<Longrightarrow> updateItem i d s = (Inl (Error ''Item not found''), s)"
  by (simp add: updateItem_def)

lemma updateItem_present:
  "Map_get (items s) i = Some item \<Longrightarrow>
   updateItem i d s = (Inr (merge item d), s\<lparr>items := AList.update i (merge item d) (items s)\<rparr>)"
  by (simp add: updateItem_def Map_set_def Let_def)

lemma update_as_map:
  "distinct (map fst al) \<Longrightarrow> map_of al k = Some v \<Longrightarrow>
   AList.update k w al = map (\<lambda>(k', v'). if k' = k then (k', w) else (k', v')) al"
  by (induction al) (auto simp: rev_image_eqI intro!: map_idI[symmetric])

lemma store_inv_updateItem:
  assumes "store_inv s"
  shows "store_inv (snd (updateItem i d s))"
proof (cases "Map_get (items s) i")
  case None
  then show ?thesis using assms by (simp add: updateItem_absent)
next
  case (Some item)
  then have mem: "(i, item) \<in> set (items s)"
    by (simp add: Map_get_def map_of_SomeD)
  then have ki: "i \<in> fst ` set (items s)" by force
  have keys: "map fst (AList.update i (merge item d) (items s)) = map fst (items s)"
    using ki by (simp add: update_keys)
  have "id' item = i" using stored_id [OF assms mem] .
  moreover have "1 \<le> i \<and> i < currentId s" using keys_below [OF assms ki] .
  ultimately have "list_all (\<lambda>(k, item). id' item = k \<and> 1 \<le> k \<and> k < currentId s)
      (AList.update i (merge item d) (items s))"
    using assms set_update_subset [of i "merge item d" "items s"]
    by (auto simp: store_inv_def list_all_iff)
  then show ?thesis
    using assms Some keys by (simp add: updateItem_present store_inv_def)
qed

lemma store_inv_deleteItem:
  assumes "store_inv s"
  shows "store_inv (snd (deleteItem i s))"
proof -
  have "sorted_wrt (<) (map fst (AList.delete i (items s)))"
    using assms
    by (simp add: store_inv_def delete_keys removeAll_filter_not_eq sorted_wrt_filter)
  then show ?thesis
    using assms
    by (auto simp: deleteItem_def store_inv_def Map_delete_def list_all_iff
        AList.delete_eq distinct_map_filter)
qed

lemma store_inv_deleteAllItems: "store_inv s \<Longrightarrow> store_inv (deleteAllItems s)"
  by (simp add: store_inv_def deleteAllItems_def)

lemma snd_step:
  "snd (step (Create d) s) = snd (createItem d s)"
  "snd (step (Update i u) s) = snd (updateItem i u s)"
  "snd (step (Delete i) s) = snd (deleteItem i s)"
  "snd (step DeleteAll s) = deleteAllItems s"
  "snd (step GetItems s) = s"
  by (simp_all split: prod.splits sum.splits)

lemma run_Cons:
  "run (x # xs) s =
     (fst (step x s) # fst (run xs (snd (step x s))), snd (run xs (snd (step x s))))"
  by (simp split: prod.splits)

lemma store_inv_step: "store_inv s \<Longrightarrow> store_inv (snd (step x s))"
  by (cases x)
    (simp_all add: snd_step store_inv_createItem store_inv_updateItem store_inv_deleteItem
      store_inv_deleteAllItems del: step.simps)

lemma store_inv_run: "store_inv s \<Longrightarrow> store_inv (snd (run ops s))"
  by (induction ops arbitrary: s) (simp_all add: run_Cons store_inv_step del: run.simps(2))

lemma currentId_step: "currentId s \<le> currentId (snd (step x s))"
  by (cases x)
    (auto simp: snd_step createItem_def updateItem_def deleteItem_def deleteAllItems_def Let_def
      simp del: step.simps split: option.splits)

lemma created_ids_step:
  "created_ids (fst (step x s) # outs) =
     (case x of Create d \<Rightarrow> currentId s # created_ids outs | _ \<Rightarrow> created_ids outs)"
  by (cases x) (auto simp: createItem_def Let_def split: prod.splits sum.splits)

lemma created_ids_run:
  "sorted_wrt (<) (created_ids (fst (run ops s))) \<and>
   (\<forall>i \<in> set (created_ids (fst (run ops s))). currentId s \<le> i)"
proof (induction ops arbitrary: s)
  case Nil
  show ?case by simp
next
  case (Cons x xs)
  let ?s' = "snd (step x s)"
  have ih: "sorted_wrt (<) (created_ids (fst (run xs ?s')))"
    "\<forall>i \<in> set (created_ids (fst (run xs ?s'))). currentId ?s' \<le> i"
    using Cons.IH [of ?s'] by simp_all
  show ?case
  proof (cases x)
    case (Create d)
    have "currentId ?s' = currentId s + 1"
      using Create by (simp add: snd_step createItem_facts del: step.simps)
    with ih show ?thesis
      using Create by (auto simp: run_Cons created_ids_step simp del: run.simps(2) step.simps)
  next
    case (Update i u)
    with ih currentId_step [of s x] show ?thesis
      by (auto simp: run_Cons created_ids_step simp del: run.simps(2) step.simps)
  next
    case (Delete i)
    with ih currentId_step [of s x] show ?thesis
      by (auto simp: run_Cons created_ids_step simp del: run.simps(2) step.simps)
  next
    case DeleteAll
    with ih currentId_step [of s x] show ?thesis
      by (auto simp: run_Cons created_ids_step simp del: run.simps(2) step.simps)
  next
    case GetItems
    with ih currentId_step [of s x] show ?thesis
      by (auto simp: run_Cons created_ids_step simp del: run.simps(2) step.simps)
  qed
qed

lemma ids_are_keys: "store_inv s \<Longrightarrow> map id' (getItems s) = map fst (items s)"
  by (auto simp: getItems_def Map_values_def store_inv_def list_all_iff)

subsection \<open>Identity allocation\<close>

text \<open>
  C3: over every sequence of store operations that starts from the freshly constructed
  store, the ids returned by the creates are strictly increasing in the order of the
  calls, so that each is greater than every id allocated before it and none is
  allocated twice, whatever was deleted in between; and the ids of the items in the
  store are pairwise different.
\<close>

theorem ids_strictly_increasing:
  "sorted_wrt (<) (created_ids (fst (run ops MemStorage_new))) \<and>
   distinct (created_ids (fst (run ops MemStorage_new))) \<and>
   distinct (map id' (getItems (snd (run ops MemStorage_new))))"
proof -
  have s: "sorted_wrt (<) (created_ids (fst (run ops MemStorage_new)))"
    using created_ids_run [of ops MemStorage_new] by simp
  have inv: "store_inv (snd (run ops MemStorage_new))"
    by (rule store_inv_run [OF store_inv_new])
  have "distinct (map id' (getItems (snd (run ops MemStorage_new))))"
    using inv by (simp add: ids_are_keys) (simp add: store_inv_def)
  with s show ?thesis
    by (simp add: strict_sorted_iff)
qed

subsection \<open>Partial update\<close>

lemma merge_fields:
  "Item.completed (merge item d) =
     (case UpdateItemData.completed d of None \<Rightarrow> Item.completed item | Some b \<Rightarrow> b)"
  "Item.category (merge item d) =
     (case UpdateItemData.category d of None \<Rightarrow> Item.category item | Some c \<Rightarrow> c)"
  "Item.name (merge item d) =
     (case UpdateItemData.name d of None \<Rightarrow> Item.name item | Some n \<Rightarrow> n)"
  by (simp_all add: merge_def Let_def split: option.splits)

lemma merge_empty:
  "merge item \<lparr>UpdateItemData.completed = None, category = None, name = None\<rparr> = item"
  by (simp add: merge_def)

text \<open>
  C4: when the id is in the store, \<open>updateItem\<close> returns, and stores under that id, the
  prior item with exactly the supplied fields overwritten: a supplied field takes the
  supplied value, whatever it is (false and the empty string included), an omitted
  field and the id keep their values; with every field omitted the update still
  succeeds, returns the prior item and leaves the store as it was.
\<close>

theorem updateItem_overwrites_supplied_fields:
  assumes "Map_get (items s) i = Some item"
  shows "fst (updateItem i d s) = Inr (merge item d) \<and>
         Map_get (items (snd (updateItem i d s))) i = Some (merge item d) \<and>
         id' (merge item d) = id' item \<and>
         Item.completed (merge item d) =
           (case UpdateItemData.completed d of None \<Rightarrow> Item.completed item | Some b \<Rightarrow> b) \<and>
         Item.category (merge item d) =
           (case UpdateItemData.category d of None \<Rightarrow> Item.category item | Some c \<Rightarrow> c) \<and>
         Item.name (merge item d) =
           (case UpdateItemData.name d of None \<Rightarrow> Item.name item | Some n \<Rightarrow> n) \<and>
         fst (updateItem i \<lparr>UpdateItemData.completed = None, category = None, name = None\<rparr> s)
           = Inr item \<and>
         snd (updateItem i \<lparr>UpdateItemData.completed = None, category = None, name = None\<rparr> s)
           = s"
proof -
  have "AList.update i item (items s) = items s"
    using assms by (simp add: Map_get_def update_triv)
  then show ?thesis
    using assms
    by (simp add: updateItem_present merge_fields merge_empty)
      (simp add: Map_get_def update_conv')
qed

theorem updateItem_overwrites_supplied_fields_witness:
  "Map_get (items \<lparr>items = [(1, \<lparr>id' = 1, name = ''milk'', category = ''dairy'', completed = True\<rparr>)],
                   currentId = 2\<rparr>) 1
     = Some \<lparr>id' = 1, name = ''milk'', category = ''dairy'', completed = True\<rparr> \<and>
   fst (updateItem 1 \<lparr>UpdateItemData.completed = Some False, category = None, name = Some ''''\<rparr>
          \<lparr>items = [(1, \<lparr>id' = 1, name = ''milk'', category = ''dairy'', completed = True\<rparr>)],
           currentId = 2\<rparr>)
     = Inr \<lparr>id' = 1, name = '''', category = ''dairy'', completed = False\<rparr>"
  using updateItem_overwrites_supplied_fields
    [of "\<lparr>items = [(1, \<lparr>id' = 1, name = ''milk'', category = ''dairy'', completed = True\<rparr>)],
          currentId = 2\<rparr>" 1
        "\<lparr>id' = 1, name = ''milk'', category = ''dairy'', completed = True\<rparr>"
        "\<lparr>UpdateItemData.completed = Some False, category = None, name = Some ''''\<rparr>"]
  by (simp add: Map_get_def merge_def)

subsection \<open>Listing\<close>

lemma no_item_with_absent_id:
  assumes "store_inv s" "map_of (items s) i = None"
  shows "\<forall>item \<in> set (getItems s). id' item \<noteq> i"
proof -
  have "i \<notin> fst ` set (items s)" using assms(2) by (simp add: map_of_eq_None_iff)
  then show ?thesis
    using assms(1) by (force simp: getItems_def Map_values_def store_inv_def list_all_iff)
qed

lemma getItems_updateItem:
  assumes "store_inv s"
  shows "getItems (snd (updateItem i u s)) =
         map (\<lambda>item. if id' item = i then merge item u else item) (getItems s)"
proof (cases "Map_get (items s) i")
  case None
  then have "\<forall>item \<in> set (getItems s). id' item \<noteq> i"
    using no_item_with_absent_id [OF assms] by (simp add: Map_get_def)
  then have "map (\<lambda>item. if id' item = i then merge item u else item) (getItems s) = getItems s"
    by (intro map_idI) auto
  then show ?thesis using None by (simp add: updateItem_absent)
next
  case (Some item)
  have d: "distinct (map fst (items s))" using assms by (simp add: store_inv_def)
  have ids: "\<forall>(k, it) \<in> set (items s). id' it = k"
    using assms by (auto simp: store_inv_def list_all_iff)
  have "AList.update i (merge item u) (items s) =
        map (\<lambda>(k', v'). if k' = i then (k', merge item u) else (k', v')) (items s)"
    using d Some by (simp add: update_as_map Map_get_def)
  moreover have "\<And>it. (i, it) \<in> set (items s) \<Longrightarrow> it = item"
  proof -
    fix it assume "(i, it) \<in> set (items s)"
    then have "map_of (items s) i = Some it" using d by (rule map_of_is_SomeI [rotated])
    then show "it = item" using Some by (simp add: Map_get_def)
  qed
  ultimately show ?thesis
    using Some ids
    by (auto simp: updateItem_present getItems_def Map_values_def)
qed

lemma getItems_deleteItem:
  assumes "store_inv s"
  shows "getItems (snd (deleteItem i s)) = filter (\<lambda>item. id' item \<noteq> i) (getItems s)"
proof (cases "Map_has (items s) i")
  case False
  then have "\<forall>item \<in> set (getItems s). id' item \<noteq> i"
    using no_item_with_absent_id [OF assms] by (simp add: Map_has_def)
  then have "filter (\<lambda>item. id' item \<noteq> i) (getItems s) = getItems s"
    by (simp add: filter_id_conv)
  then show ?thesis using False by (simp add: deleteItem_def)
next
  case True
  have ids: "\<forall>(k, it) \<in> set (items s). id' it = k"
    using assms by (auto simp: store_inv_def list_all_iff)
  have "map snd (filter (\<lambda>(k', _). i \<noteq> k') al) = filter (\<lambda>item. id' item \<noteq> i) (map snd al)"
    if "\<forall>(k, it) \<in> set al. id' it = k" for al :: "(int \<times> Item) list"
    using that by (induction al) auto
  then show ?thesis
    using True ids
    by (simp add: deleteItem_def getItems_def Map_values_def Map_delete_def AList.delete_eq)
qed

lemma getItems_createItem:
  assumes "store_inv s"
  shows "getItems (snd (createItem d s)) =
         getItems s @ [\<lparr>id' = currentId s, name = InsertItem.name d,
                         category = InsertItem.category d,
                         completed = (case InsertItem.completed d of None \<Rightarrow> False | Some b \<Rightarrow> b)\<rparr>]"
  using createItem_items [OF assms, of d]
  by (simp add: getItems_def Map_values_def) (simp add: createItem_def Let_def)

lemma getItems_run:
  "store_inv s \<Longrightarrow> getItems (snd (run ops s)) = spec_replay ops (currentId s) (getItems s)"
proof (induction ops arbitrary: s)
  case Nil
  show ?case by simp
next
  case (Cons x xs)
  have inv: "store_inv (snd (step x s))" using Cons.prems by (rule store_inv_step)
  note ih = Cons.IH [OF inv]
  show ?case
  proof (cases x)
    case (Create d)
    then show ?thesis
      using ih getItems_createItem [OF Cons.prems, of d]
      by (simp add: run_Cons snd_step createItem_facts del: run.simps(2) step.simps)
  next
    case (Update i u)
    moreover have "currentId (snd (updateItem i u s)) = currentId s"
      by (simp add: updateItem_def Let_def split: option.splits)
    ultimately show ?thesis
      using ih getItems_updateItem [OF Cons.prems, of i u]
      by (simp add: run_Cons snd_step del: run.simps(2) step.simps)
  next
    case (Delete i)
    moreover have "currentId (snd (deleteItem i s)) = currentId s"
      by (simp add: deleteItem_def)
    ultimately show ?thesis
      using ih getItems_deleteItem [OF Cons.prems, of i]
      by (simp add: run_Cons snd_step del: run.simps(2) step.simps)
  next
    case DeleteAll
    then show ?thesis
      using ih
      by (simp add: run_Cons snd_step deleteAllItems_def getItems_def Map_values_def
          del: run.simps(2) step.simps)
  next
    case GetItems
    then show ?thesis
      using ih by (simp add: run_Cons snd_step del: run.simps(2) step.simps)
  qed
qed

text \<open>
  C8: \<open>getItems\<close> is a total function and returns a list in every state. It is empty
  for the new store and after deleting everything. After any sequence of operations
  it is the list the reference model replays: creates append, updates keep every item
  in its place, deletes drop the item. That order is the ascending order of ids, and
  an update does not change it.
\<close>

theorem getItems_in_insertion_order:
  "getItems MemStorage_new = [] \<and>
   getItems (deleteAllItems s) = [] \<and>
   getItems (snd (run ops MemStorage_new)) = spec_replay ops 1 [] \<and>
   sorted_wrt (<) (map id' (getItems (snd (run ops MemStorage_new)))) \<and>
   map id' (getItems (snd (updateItem i u (snd (run ops MemStorage_new))))) =
     map id' (getItems (snd (run ops MemStorage_new)))"
proof -
  let ?s = "snd (run ops MemStorage_new)"
  have inv: "store_inv ?s" by (rule store_inv_run [OF store_inv_new])
  have e: "getItems MemStorage_new = []"
    by (simp add: getItems_def Map_values_def MemStorage_new_def)
  have r: "getItems ?s = spec_replay ops 1 []"
    using getItems_run [OF store_inv_new, of ops] e by (simp add: MemStorage_new_def)
  have o: "sorted_wrt (<) (map id' (getItems ?s))"
    using inv by (simp add: ids_are_keys) (simp add: store_inv_def)
  have u: "map id' (getItems (snd (updateItem i u ?s))) = map id' (getItems ?s)"
    by (simp add: getItems_updateItem [OF inv] comp_def)
  show ?thesis
    using e r o u by (simp add: deleteAllItems_def getItems_def Map_values_def)
qed

section \<open>Properties of the classifier\<close>

lemma starts_with_iff: "starts_with s t \<longleftrightarrow> (\<exists>q. s = t @ q)"
  by (induction s t rule: starts_with.induct) auto

lemma String_includes_iff: "String_includes s t \<longleftrightarrow> (\<exists>p q. s = p @ t @ q)"
proof (induction s)
  case Nil
  show ?case by auto
next
  case (Cons c s)
  show ?case
  proof
    assume "String_includes (c # s) t"
    then consider "starts_with (c # s) t" | "String_includes s t" by auto
    then show "\<exists>p q. c # s = p @ t @ q"
    proof cases
      case 1
      then obtain q where "c # s = t @ q" by (auto simp: starts_with_iff)
      then have "c # s = [] @ t @ q" by simp
      then show ?thesis by blast
    next
      case 2
      then obtain p q where "s = p @ t @ q" using Cons.IH by auto
      then have "c # s = (c # p) @ t @ q" by simp
      then show ?thesis by blast
    qed
  next
    assume "\<exists>p q. c # s = p @ t @ q"
    then obtain p q where pq: "c # s = p @ t @ q" by auto
    show "String_includes (c # s) t"
    proof (cases p)
      case Nil
      then have "starts_with (c # s) t" using pq by (auto simp: starts_with_iff)
      then show ?thesis by simp
    next
      case (Cons a p')
      then have "s = p' @ t @ q" using pq by simp
      then have "String_includes s t" using Cons.IH by blast
      then show ?thesis by simp
    qed
  qed
qed

lemma first_category_find:
  "first_category es l =
     (case find (\<lambda>e. some_included l (snd e)) es of None \<Rightarrow> ovrigt | Some e \<Rightarrow> fst e)"
  by (induction es l rule: first_category.induct) auto

lemma keywords_lowercase:
  "\<forall>e \<in> set categories. \<forall>k \<in> set (snd e). toLowerCase k = k"
  by (simp add: categories_def toLowerCase_def lower_char_def ae_def aa_def oe_def)


lemma category_matches_table:
  "e \<in> set categories \<Longrightarrow>
   category_matches n e = some_included (toLowerCase n) (snd e)"
proof -
  assume "e \<in> set categories"
  then have "\<forall>k \<in> set (snd e). toLowerCase k = k"
    using keywords_lowercase by blast
  then show ?thesis
    by (auto simp: category_matches_def some_included_def keyword_matches_def list_ex_iff)
qed

lemma find_cong_set: "(\<And>x. x \<in> set xs \<Longrightarrow> P x = Q x) \<Longrightarrow> find P xs = find Q xs"
  by (induction xs) auto

lemma categorizeItem_find:
  "categorizeItem n =
     (case find (category_matches n) categories of None \<Rightarrow> ovrigt | Some e \<Rightarrow> fst e)"
proof -
  have "find (\<lambda>e. some_included (toLowerCase n) (snd e)) categories =
        find (category_matches n) categories"
    by (rule find_cong_set) (simp add: category_matches_table)
  then show ?thesis
    by (simp add: categorizeItem_def first_category_find)
qed

lemma category_keys:
  "map fst categories =
     [frukt, gronsaker, mejeri, kott, skafferi, snacks, dryck, hushall, ovrigt]"
  by (simp add: categories_def)

text \<open>
  C10: \<open>categorizeItem\<close> is total and its result is one of the nine declared keys.
  It is the key of the first entry, in declaration order, one of whose keywords
  occurs in the name with case ignored, and it is the ninth key when no entry has
  such a keyword; a name with keywords of several categories gets the earliest one.
\<close>

theorem categorizeItem_first_match:
  "categorizeItem n \<in> set (map fst categories) \<and>
   map fst categories =
     [frukt, gronsaker, mejeri, kott, skafferi, snacks, dryck, hushall, ovrigt] \<and>
   (\<forall>i < length categories.
      category_matches n (categories ! i) \<longrightarrow>
      (\<forall>j < i. \<not> category_matches n (categories ! j)) \<longrightarrow>
      categorizeItem n = fst (categories ! i)) \<and>
   ((\<forall>e \<in> set categories. \<not> category_matches n e) \<longrightarrow> categorizeItem n = ovrigt)"
proof -
  have total: "categorizeItem n \<in> set (map fst categories)"
  proof (cases "find (category_matches n) categories")
    case None
    then have "categorizeItem n = ovrigt" by (simp add: categorizeItem_find)
    then show ?thesis by (simp add: category_keys)
  next
    case (Some e)
    then have "e \<in> set categories" by (auto simp: find_Some_iff)
    then show ?thesis using Some by (simp add: categorizeItem_find)
  qed
  have first: "categorizeItem n = fst (categories ! i)"
    if "i < length categories" "category_matches n (categories ! i)"
      "\<forall>j < i. \<not> category_matches n (categories ! j)" for i
  proof -
    have "find (category_matches n) categories = Some (categories ! i)"
      using that by (auto simp: find_Some_iff)
    then show ?thesis by (simp add: categorizeItem_find)
  qed
  have none: "categorizeItem n = ovrigt" if "\<forall>e \<in> set categories. \<not> category_matches n e"
  proof -
    have "find (category_matches n) categories = None"
      using that by (simp add: find_None_iff)
    then show ?thesis by (simp add: categorizeItem_find)
  qed
  show ?thesis
    using total first none by (simp add: category_keys)
qed

theorem categorizeItem_first_match_witness:
  "category_matches ''TomatJuice'' (categories ! 1) \<and>
   category_matches ''TomatJuice'' (categories ! 6) \<and>
   \<not> category_matches ''TomatJuice'' (categories ! 0) \<and>
   categorizeItem ''TomatJuice'' = gronsaker \<and>
   categorizeItem ''xyz'' = ovrigt"
proof -
  have m1: "category_matches ''TomatJuice'' (categories ! 1)"
    by code_simp
  have m6: "category_matches ''TomatJuice'' (categories ! 6)"
    by code_simp
  have m0: "\<not> category_matches ''TomatJuice'' (categories ! 0)"
    by code_simp
  have none: "\<forall>e \<in> set categories. \<not> category_matches ''xyz'' e"
    by code_simp
  have len: "(1::nat) < length categories" by (simp add: categories_def)
  have "categorizeItem ''TomatJuice'' = fst (categories ! 1)"
    using categorizeItem_first_match [of "''TomatJuice''"] m1 m0 len by auto
  moreover have "fst (categories ! 1) = gronsaker" by (simp add: categories_def)
  moreover have "categorizeItem ''xyz'' = ovrigt"
    using categorizeItem_first_match [of "''xyz''"] none by blast
  ultimately show ?thesis using m1 m6 m0 by simp
qed

section \<open>Properties of the broadcast channel\<close>

lemma forEach_send_storage [simp]: "storage (forEach_send msg cs sv) = storage sv"
  by (induction cs arbitrary: sv) auto

lemma forEach_send_sockets [simp]: "sockets (forEach_send msg cs sv) = sockets sv"
  by (induction cs arbitrary: sv) auto

lemma forEach_send_trace:
  "trace (forEach_send msg cs sv) = trace sv @ pushes msg (sockets sv) cs"
  by (induction cs arbitrary: sv) (auto simp: pushes_def cong: if_cong)

lemma forEach_send_clients:
  "clients (forEach_send msg cs sv) =
     filter (\<lambda>c. \<not> (c \<in> set cs \<and> readyState (sockets sv c) = OPEN \<and> send_throws (sockets sv c)))
       (clients sv)"
proof (induction cs arbitrary: sv)
  case Nil
  show ?case by simp
next
  case (Cons c cs)
  show ?case
    by (auto simp: Cons.IH Set_delete_def removeAll_filter_not_eq intro!: filter_cong cong: if_cong)
qed

lemma set_pushes:
  "set (pushes msg socks cs) =
     {Sent c msg | c. c \<in> set cs \<and> readyState (socks c) = OPEN \<and> \<not> send_throws (socks c)} \<union>
     {SendError c | c. c \<in> set cs \<and> readyState (socks c) = OPEN \<and> send_throws (socks c)}"
  by (auto simp: pushes_def split: if_splits)

lemma count_pushes [simp]:
  "count_list (pushes msg socks cs) Notify = 0"
  "count_list (pushes msg socks cs) StoreRead = 0"
  by (induction cs) (simp_all add: pushes_def)

lemma broadcast_events_eq:
  "broadcast_events sv = [Notify, StoreRead] @ pushes (update_message sv) (sockets sv) (clients sv)"
  by (simp add: broadcast_events_def broadcastUpdate_def Let_def forEach_send_trace
      update_message_def)

lemma trace_broadcastUpdate:
  "trace (broadcastUpdate sv) = trace sv @ broadcast_events sv"
  by (simp add: broadcast_events_eq)
    (simp add: broadcastUpdate_def Let_def forEach_send_trace update_message_def)

lemma storage_broadcastUpdate [simp]: "storage (broadcastUpdate sv) = storage sv"
  by (simp add: broadcastUpdate_def Let_def)

lemma sockets_broadcastUpdate [simp]: "sockets (broadcastUpdate sv) = sockets sv"
  by (simp add: broadcastUpdate_def Let_def)

lemma clients_broadcastUpdate:
  "clients (broadcastUpdate sv) =
     filter (\<lambda>c. \<not> (readyState (sockets sv c) = OPEN \<and> send_throws (sockets sv c))) (clients sv)"
  by (auto simp: broadcastUpdate_def Let_def forEach_send_clients intro!: filter_cong)

lemma notifications_broadcastUpdate [simp]:
  "notifications (broadcastUpdate sv) = notifications sv + 1"
  by (simp add: notifications_def trace_broadcastUpdate broadcast_events_eq)


lemma handle_ignores_connections:
  "fst (handle r (sv\<lparr>clients := cs, sockets := ss\<rparr>)) = fst (handle r sv) \<and>
   storage (snd (handle r (sv\<lparr>clients := cs, sockets := ss\<rparr>))) = storage (snd (handle r sv))"
  by (cases r)
    (auto simp: post_items_def patch_item_def delete_item_def delete_items_def
      split: SafeParseResult.splits option.splits prod.splits sum.splits error.splits)

text \<open>
  C1, as the code has it: a call of \<open>broadcastUpdate\<close> reads the store's list
  once and builds one message, of type UPDATE and with that list as its items. Every
  tracked connection that is open is pushed that message, or its \<open>send\<close> throws;
  a \<open>send\<close> that throws does not keep the message from any other open connection.
  Every message pushed is that one message and goes to a tracked connection. The
  store is not changed, and the response to a request and the store after it do not
  depend on the connections or on a \<open>send\<close> that throws.
\<close>

theorem broadcast_same_message_to_open_connections:
  "trace (broadcastUpdate sv) = trace sv @ broadcast_events sv \<and>
   count_list (broadcast_events sv) StoreRead = 1 \<and>
   msg_type (update_message sv) = ''UPDATE'' \<and>
   msg_items (update_message sv) = getItems (storage sv) \<and>
   (\<forall>c \<in> set (clients sv). readyState (sockets sv c) = OPEN \<longrightarrow>
      (if send_throws (sockets sv c) then SendError c \<in> set (broadcast_events sv)
       else Sent c (update_message sv) \<in> set (broadcast_events sv))) \<and>
   (\<forall>c m. Sent c m \<in> set (broadcast_events sv) \<longrightarrow>
      m = update_message sv \<and> c \<in> set (clients sv)) \<and>
   storage (broadcastUpdate sv) = storage sv \<and>
   fst (handle r (sv\<lparr>clients := cs, sockets := ss\<rparr>)) = fst (handle r sv) \<and>
   storage (snd (handle r (sv\<lparr>clients := cs, sockets := ss\<rparr>))) = storage (snd (handle r sv))"
proof -
  have once: "count_list (broadcast_events sv) StoreRead = 1"
    by (simp add: broadcast_events_eq)
  have each: "\<forall>c \<in> set (clients sv). readyState (sockets sv c) = OPEN \<longrightarrow>
      (if send_throws (sockets sv c) then SendError c \<in> set (broadcast_events sv)
       else Sent c (update_message sv) \<in> set (broadcast_events sv))"
    by (simp add: broadcast_events_eq set_pushes)
  have same: "\<forall>c m. Sent c m \<in> set (broadcast_events sv) \<longrightarrow>
      m = update_message sv \<and> c \<in> set (clients sv)"
    by (auto simp: broadcast_events_eq set_pushes)
  show ?thesis
    using once each same trace_broadcastUpdate [of sv] handle_ignores_connections [where r = r and sv = sv and cs = cs and ss = ss]
    by (simp add: update_message_def)
qed

lemma three_server_events:
  "broadcast_events three_server =
     [Notify, StoreRead, SendError 0, Sent 2 (update_message three_server)]"
  by (simp add: broadcast_events_eq pushes_def three_server_def three_sockets_def)

theorem broadcast_same_message_to_open_connections_witness:
  "2 \<in> set (clients three_server) \<and>
   readyState (sockets three_server 2) = OPEN \<and>
   Sent 2 (update_message three_server) \<in> set (broadcast_events three_server) \<and>
   0 \<in> set (clients three_server) \<and>
   readyState (sockets three_server 0) = OPEN \<and>
   SendError 0 \<in> set (broadcast_events three_server)"
  using broadcast_same_message_to_open_connections [of three_server]
  by (simp add: three_server_def three_sockets_def)

text \<open>
  A tracked connection that is closing is pushed nothing: the trace of the broadcast
  holds the call and the read of the store, and no message.
\<close>

theorem closing_connection_gets_no_message:
  "0 \<in> set (clients closing_server) \<and>
   trace (broadcastUpdate closing_server) = [Notify, StoreRead] \<and>
   Sent 0 (update_message closing_server) \<notin> set (trace (broadcastUpdate closing_server))"
  by (simp add: trace_broadcastUpdate broadcast_events_eq pushes_def)
    (simp add: closing_server_def)

text \<open>
  C9: a broadcast pushes the message only to connections that are open. A tracked
  connection in any other state is passed over: it is pushed nothing, no error is
  recorded for it, and it is still tracked after the broadcast.
\<close>

theorem broadcast_skips_connections_not_open:
  "(\<forall>c m. Sent c m \<in> set (broadcast_events sv) \<longrightarrow> readyState (sockets sv c) = OPEN) \<and>
   (\<forall>c \<in> set (clients sv). readyState (sockets sv c) \<noteq> OPEN \<longrightarrow>
      c \<in> set (clients (broadcastUpdate sv)) \<and>
      (\<forall>m. Sent c m \<notin> set (broadcast_events sv)) \<and>
      SendError c \<notin> set (broadcast_events sv))"
  by (auto simp: broadcast_events_eq set_pushes clients_broadcastUpdate)

theorem broadcast_skips_connections_not_open_witness:
  "1 \<in> set (clients three_server) \<and>
   readyState (sockets three_server 1) = CLOSING \<and>
   1 \<in> set (clients (broadcastUpdate three_server)) \<and>
   Sent 1 (update_message three_server) \<notin> set (broadcast_events three_server) \<and>
   SendError 1 \<notin> set (broadcast_events three_server) \<and>
   clients (broadcastUpdate three_server) = [1, 2]"
proof -
  have a: "1 \<in> set (clients three_server)" by (simp add: three_server_def)
  have b: "readyState (sockets three_server 1) = CLOSING"
    by (simp add: three_server_def three_sockets_def)
  have c: "clients (broadcastUpdate three_server) = [1, 2]"
    by (simp add: clients_broadcastUpdate three_server_def three_sockets_def)
  from b have "readyState (sockets three_server 1) \<noteq> OPEN" by simp
  with a broadcast_skips_connections_not_open [of three_server]
  show ?thesis using b c by blast
qed

section \<open>Properties of the routes\<close>

lemma deleteItem_absent:
  "\<not> Map_has (items s) i \<Longrightarrow> deleteItem i s = (Inl (Error ''Item not found''), s)"
  by (simp add: deleteItem_def)

lemma Map_has_get: "Map_has m k \<longleftrightarrow> Map_get m k \<noteq> None"
  by (simp add: Map_has_def Map_get_def)

lemma patch_item_absent:
  "parseInt idParam = Some i \<Longrightarrow> updateItemSchema_safeParse reqBody = Success d \<Longrightarrow>
   \<not> Map_has (items (storage sv)) i \<Longrightarrow>
   patch_item idParam reqBody sv =
     (\<lparr>status = 404, body = MessageBody ''Item not found''\<rparr>, sv)"
  by (simp add: patch_item_def updateItem_absent Map_has_get)

lemma delete_item_absent:
  "parseInt idParam = Some i \<Longrightarrow> \<not> Map_has (items (storage sv)) i \<Longrightarrow>
   delete_item idParam sv = (\<lparr>status = 404, body = MessageBody ''Item not found''\<rparr>, sv)"
  by (simp add: delete_item_def deleteItem_absent)

lemma patch_item_present:
  "parseInt idParam = Some i \<Longrightarrow> updateItemSchema_safeParse reqBody = Success d \<Longrightarrow>
   Map_get (items (storage sv)) i = Some item \<Longrightarrow>
   patch_item idParam reqBody sv =
     (\<lparr>status = 200, body = ItemBody (merge item d)\<rparr>,
      broadcastUpdate (sv\<lparr>storage := snd (updateItem i d (storage sv))\<rparr>))"
  by (simp add: patch_item_def updateItem_present)

lemma delete_item_present:
  "parseInt idParam = Some i \<Longrightarrow> Map_has (items (storage sv)) i \<Longrightarrow>
   delete_item idParam sv =
     (\<lparr>status = 204, body = NoBody\<rparr>,
      broadcastUpdate (sv\<lparr>storage := snd (deleteItem i (storage sv))\<rparr>))"
  by (simp add: delete_item_def deleteItem_def)

lemma notifications_storage [simp]: "notifications (sv\<lparr>storage := st\<rparr>) = notifications sv"
  by (simp add: notifications_def)

lemma parseInt_examples:
  "parseInt ''999'' = Some 999"
  "parseInt ''-5'' = Some (- 5)"
  "parseInt ''abc'' = None"
  "parseInt ''1'' = Some 1"
  by code_simp+

lemma safeParse_examples:
  "insertItemSchema_safeParse (JObject [(''name'', JString ''milk''), (''category'', JString ''dairy'')])
     = Success \<lparr>InsertItem.name = ''milk'', category = ''dairy'', completed = None\<rparr>"
  "updateItemSchema_safeParse (JObject [(''completed'', JBool True)])
     = Success \<lparr>UpdateItemData.completed = Some True, category = None, name = None\<rparr>"
  by simp_all

lemma server_new_simps:
  "storage server_new = MemStorage_new" "trace server_new = []" "clients server_new = []"
  "items MemStorage_new = []" "currentId MemStorage_new = 1"
  by (simp_all add: server_new_def MemStorage_new_def)

lemma nothing_in_new_store: "\<not> Map_has (items (storage server_new)) i"
  by (simp add: server_new_simps Map_has_def)

lemma minus_not_space: "\<not> isWhiteSpace (CHR ''-'')"
  by (simp add: isWhiteSpace_def)

lemma digit_not_x: "is_digit 10 c \<Longrightarrow> c \<noteq> CHR ''x'' \<and> c \<noteq> CHR ''X''"
  by (auto simp: is_digit_def digit_value_def)

lemma strip_prefix_decimal: "list_all (is_digit 10) ds \<Longrightarrow> strip_prefix ds = (10, ds)"
  by (induction ds rule: strip_prefix.induct) (auto dest: digit_not_x)

lemma parseInt_negative:
  assumes "ds \<noteq> []" "list_all (is_digit 10) ds"
  shows "parseInt (CHR ''-'' # ds) = Some (- int (digits_value 10 ds))"
proof -
  have tw: "takeWhile (is_digit 10) ds = ds"
    using assms(2) by (simp add: takeWhile_eq_all_conv list_all_iff)
  have "parseInt (CHR ''-'' # ds) =
        (let Z = takeWhile (is_digit 10) ds
         in if Z = [] then None else Some (- 1 * int (digits_value 10 Z)))"
    using assms(2) by (simp add: parseInt_def minus_not_space strip_prefix_decimal)
  also have "\<dots> = Some (- int (digits_value 10 ds))"
    unfolding tw using assms(1) by (simp add: Let_def)
  finally show ?thesis .
qed

lemma negative_id_absent: "store_inv s \<Longrightarrow> i < 0 \<Longrightarrow> \<not> Map_has (items s) i"
proof
  assume inv: "store_inv s" and neg: "i < 0" and has: "Map_has (items s) i"
  from has obtain item where "map_of (items s) i = Some item"
    by (auto simp: Map_has_def)
  then have "i \<in> fst ` set (items s)" by (force dest: map_of_SomeD)
  with keys_below [OF inv] have "1 \<le> i" by blast
  with neg show False by simp
qed

lemma store_inv_server_new: "store_inv (storage server_new)"
  by (simp add: server_new_simps store_inv_new)

lemma z_string_Failure: "z_string x = Failure \<longleftrightarrow> (\<forall>s. x \<noteq> Some (JString s))"
  by (cases x rule: z_string.cases) auto

lemma insert_not_object:
  "(\<forall>props. reqBody \<noteq> JObject props) \<Longrightarrow> insertItemSchema_safeParse reqBody = Failure"
  by (cases reqBody) auto

lemma insert_bad_field:
  "(\<forall>s. map_of props ''name'' \<noteq> Some (JString s)) \<or>
   (\<forall>s. map_of props ''category'' \<noteq> Some (JString s)) \<Longrightarrow>
   insertItemSchema_safeParse (JObject props) = Failure"
  by (auto simp: z_string_Failure [symmetric] split: SafeParseResult.splits)

lemma post_items_Failure:
  "insertItemSchema_safeParse reqBody = Failure \<Longrightarrow>
   post_items reqBody sv = (\<lparr>status = 400, body = MessageBody ''Invalid item data''\<rparr>, sv)"
  by (simp add: post_items_def)

subsection \<open>Broadcast after a mutation\<close>

text \<open>
  C2: for each of the four mutating requests, when the body is valid, the id parses
  and the store holds the id, the response is 200 or 204 and exactly one more call of
  \<open>broadcastUpdate\<close> is on the trace; otherwise the response is 400 or 404, the
  server is left exactly as it was, and no call of \<open>broadcastUpdate\<close> is added.
\<close>

theorem one_broadcast_per_successful_mutation:
  "(if passes r sv
    then status (fst (handle r sv)) \<in> {200, 204} \<and>
         notifications (snd (handle r sv)) = notifications sv + 1
    else status (fst (handle r sv)) \<in> {400, 404} \<and>
         snd (handle r sv) = sv \<and>
         notifications (snd (handle r sv)) = notifications sv)"
proof (cases r)
  case (POST_items reqBody)
  then show ?thesis
    by (auto simp: post_items_def split: SafeParseResult.splits prod.splits)
next
  case (PATCH_item idParam reqBody)
  show ?thesis
  proof (cases "parseInt idParam")
    case None
    then show ?thesis using PATCH_item by (simp add: patch_item_def)
  next
    case (Some i)
    show ?thesis
    proof (cases "updateItemSchema_safeParse reqBody")
      case Failure
      then show ?thesis using PATCH_item Some by (simp add: patch_item_def)
    next
      case (Success d)
      show ?thesis
      proof (cases "Map_get (items (storage sv)) i")
        case None
        then have "\<not> Map_has (items (storage sv)) i" by (simp add: Map_has_get)
        then show ?thesis
          using PATCH_item Some Success by (simp add: patch_item_absent)
      next
        case (Some item)
        then have "Map_has (items (storage sv)) i" by (simp add: Map_has_get)
        then show ?thesis
          using PATCH_item \<open>parseInt idParam = Some i\<close> Success Some
          by (simp add: patch_item_present)
      qed
    qed
  qed
next
  case (DELETE_item idParam)
  show ?thesis
  proof (cases "parseInt idParam")
    case None
    then show ?thesis using DELETE_item by (simp add: delete_item_def)
  next
    case (Some i)
    then show ?thesis
      using DELETE_item
      by (cases "Map_has (items (storage sv)) i")
        (simp_all add: delete_item_absent delete_item_present)
  qed
next
  case DELETE_items
  then show ?thesis by (simp add: delete_items_def)
qed


theorem one_broadcast_per_successful_mutation_witness:
  "passes (POST_items (JObject [(''name'', JString ''milk''), (''category'', JString ''dairy'')]))
     server_new \<and>
   notifications
     (snd (handle (POST_items (JObject [(''name'', JString ''milk''),
                                        (''category'', JString ''dairy'')])) server_new)) = 1 \<and>
   \<not> passes (PATCH_item ''999'' (JObject [(''completed'', JBool True)])) server_new \<and>
   snd (handle (PATCH_item ''999'' (JObject [(''completed'', JBool True)])) server_new)
     = server_new"
proof -
  have p: "passes (POST_items (JObject [(''name'', JString ''milk''),
                                        (''category'', JString ''dairy'')])) server_new"
    by simp
  have q: "\<not> passes (PATCH_item ''999'' (JObject [(''completed'', JBool True)])) server_new"
    by (simp add: parseInt_examples nothing_in_new_store)
  have n: "notifications server_new = 0"
    by (simp add: notifications_def server_new_simps)
  show ?thesis
    using p q n
      one_broadcast_per_successful_mutation
        [of "POST_items (JObject [(''name'', JString ''milk''), (''category'', JString ''dairy'')])"
            server_new]
      one_broadcast_per_successful_mutation
        [of "PATCH_item ''999'' (JObject [(''completed'', JBool True)])" server_new]
    by simp
qed

subsection \<open>Unknown ids\<close>

text \<open>
  C5: when the store does not hold the id, \<open>updateItem\<close> and \<open>deleteItem\<close> throw
  the error "Item not found" and leave the store as it was; the PATCH handler (given
  a valid body) and the DELETE handler answer 404 and return the server unchanged,
  store and trace alike, so that nothing is broadcast.
\<close>

theorem absent_id_is_not_found:
  assumes "\<not> Map_has (items (storage sv)) i"
  shows "updateItem i d (storage sv) = (Inl (Error ''Item not found''), storage sv) \<and>
         deleteItem i (storage sv) = (Inl (Error ''Item not found''), storage sv) \<and>
         (parseInt idParam = Some i \<longrightarrow> updateItemSchema_safeParse reqBody = Success d \<longrightarrow>
            patch_item idParam reqBody sv =
              (\<lparr>status = 404, body = MessageBody ''Item not found''\<rparr>, sv)) \<and>
         (parseInt idParam = Some i \<longrightarrow>
            delete_item idParam sv =
              (\<lparr>status = 404, body = MessageBody ''Item not found''\<rparr>, sv))"
  using assms
  by (simp add: updateItem_absent deleteItem_absent patch_item_absent delete_item_absent
      Map_has_get)

theorem absent_id_is_not_found_witness:
  "\<not> Map_has (items (storage server_new)) 999 \<and>
   parseInt ''999'' = Some 999 \<and>
   updateItemSchema_safeParse (JObject [(''completed'', JBool True)])
     = Success \<lparr>UpdateItemData.completed = Some True, category = None, name = None\<rparr> \<and>
   patch_item ''999'' (JObject [(''completed'', JBool True)]) server_new =
     (\<lparr>status = 404, body = MessageBody ''Item not found''\<rparr>, server_new) \<and>
   delete_item ''999'' server_new =
     (\<lparr>status = 404, body = MessageBody ''Item not found''\<rparr>, server_new)"
  using absent_id_is_not_found
    [of server_new 999
        "\<lparr>UpdateItemData.completed = Some True, category = None, name = None\<rparr>"
        "''999''" "JObject [(''completed'', JBool True)]"]
    nothing_in_new_store [of 999]
  by (simp add: parseInt_examples)

subsection \<open>Parsing the id\<close>

text \<open>
  C6, as the code has it: PATCH and DELETE answer 400 "Invalid ID", with the server
  untouched and whatever the store holds, exactly when \<open>parseInt\<close> of the path segment
  is \<open>NaN\<close>. A segment that \<open>parseInt\<close> accepts is never answered with "Invalid ID".
  A minus sign followed by decimal digits is accepted, as the negative number, and
  is looked up: on a store whose ids are all at least 1 the answer is 404.
\<close>

theorem invalid_id_only_when_parseInt_fails:
  "(parseInt idParam = None \<longrightarrow>
      patch_item idParam reqBody sv = (\<lparr>status = 400, body = MessageBody ''Invalid ID''\<rparr>, sv) \<and>
      delete_item idParam sv = (\<lparr>status = 400, body = MessageBody ''Invalid ID''\<rparr>, sv)) \<and>
   (parseInt idParam \<noteq> None \<longrightarrow>
      fst (patch_item idParam reqBody sv) \<noteq> \<lparr>status = 400, body = MessageBody ''Invalid ID''\<rparr> \<and>
      fst (delete_item idParam sv) \<noteq> \<lparr>status = 400, body = MessageBody ''Invalid ID''\<rparr>) \<and>
   (ds \<noteq> [] \<and> list_all (is_digit 10) ds \<longrightarrow>
      parseInt (CHR ''-'' # ds) = Some (- int (digits_value 10 ds))) \<and>
   (parseInt idParam = Some i \<and> i < 0 \<and> store_inv (storage sv) \<longrightarrow>
      delete_item idParam sv = (\<lparr>status = 404, body = MessageBody ''Item not found''\<rparr>, sv) \<and>
      (updateItemSchema_safeParse reqBody = Success d \<longrightarrow>
         patch_item idParam reqBody sv =
           (\<lparr>status = 404, body = MessageBody ''Item not found''\<rparr>, sv)))"
proof -
  have a: "parseInt idParam = None \<Longrightarrow>
      patch_item idParam reqBody sv = (\<lparr>status = 400, body = MessageBody ''Invalid ID''\<rparr>, sv) \<and>
      delete_item idParam sv = (\<lparr>status = 400, body = MessageBody ''Invalid ID''\<rparr>, sv)"
    by (simp add: patch_item_def delete_item_def)
  have b: "parseInt idParam \<noteq> None \<Longrightarrow>
      fst (patch_item idParam reqBody sv) \<noteq> \<lparr>status = 400, body = MessageBody ''Invalid ID''\<rparr> \<and>
      fst (delete_item idParam sv) \<noteq> \<lparr>status = 400, body = MessageBody ''Invalid ID''\<rparr>"
    by (auto simp: patch_item_def delete_item_def
        split: SafeParseResult.splits prod.splits sum.splits error.splits if_splits)
  have c: "parseInt idParam = Some i \<and> i < 0 \<and> store_inv (storage sv) \<Longrightarrow>
      delete_item idParam sv = (\<lparr>status = 404, body = MessageBody ''Item not found''\<rparr>, sv) \<and>
      (updateItemSchema_safeParse reqBody = Success d \<longrightarrow>
         patch_item idParam reqBody sv =
           (\<lparr>status = 404, body = MessageBody ''Item not found''\<rparr>, sv))"
    using negative_id_absent [of "storage sv" i]
    by (simp add: delete_item_absent patch_item_absent)
  show ?thesis
    using a b c parseInt_negative [of ds] by blast
qed

theorem invalid_id_only_when_parseInt_fails_witness:
  "parseInt ''abc'' = None \<and>
   delete_item ''abc'' server_new =
     (\<lparr>status = 400, body = MessageBody ''Invalid ID''\<rparr>, server_new) \<and>
   parseInt ''-5'' = Some (- 5) \<and>
   delete_item ''-5'' server_new =
     (\<lparr>status = 404, body = MessageBody ''Item not found''\<rparr>, server_new) \<and>
   fst (delete_item ''-5'' server_new) \<noteq> \<lparr>status = 400, body = MessageBody ''Invalid ID''\<rparr>"
proof -
  have n: "(- 5 :: int) < 0" by simp
  show ?thesis
    using invalid_id_only_when_parseInt_fails
        [where idParam = "''abc''" and sv = server_new]
      invalid_id_only_when_parseInt_fails
        [where idParam = "''-5''" and sv = server_new and i = "- 5"]
      store_inv_server_new n
    by (simp add: parseInt_examples)
qed

text \<open>
  The segment \<open>-5\<close> parses to the integer -5 and is answered with 404, not with 400.
\<close>

theorem negative_id_is_looked_up:
  "parseInt ''-5'' = Some (- 5) \<and>
   fst (delete_item ''-5'' server_new) = \<lparr>status = 404, body = MessageBody ''Item not found''\<rparr> \<and>
   fst (patch_item ''-5'' (JObject [(''completed'', JBool True)]) server_new)
     = \<lparr>status = 404, body = MessageBody ''Item not found''\<rparr>"
  using nothing_in_new_store [of "- 5"]
  by (simp add: parseInt_examples delete_item_absent
      patch_item_absent [where d = "\<lparr>UpdateItemData.completed = Some True, category = None, name = None\<rparr>"])


subsection \<open>Validating a new item\<close>

text \<open>
  C7, as the code has it: POST is answered with 400 "Invalid item data", and the server
  left untouched, when the body is not an object, or lacks \<open>name\<close> or \<open>category\<close>, or
  gives either a value that is not text. A body with a text \<open>name\<close>, a text
  \<open>category\<close> and no \<open>completed\<close> is accepted, whatever the text is, and answered
  with the created item.
\<close>

theorem post_rejects_missing_or_non_text_fields:
  "((\<forall>props. reqBody \<noteq> JObject props) \<longrightarrow>
      post_items reqBody sv =
        (\<lparr>status = 400, body = MessageBody ''Invalid item data''\<rparr>, sv)) \<and>
   ((\<forall>s. map_of props ''name'' \<noteq> Some (JString s)) \<or>
    (\<forall>s. map_of props ''category'' \<noteq> Some (JString s)) \<longrightarrow>
      post_items (JObject props) sv =
        (\<lparr>status = 400, body = MessageBody ''Invalid item data''\<rparr>, sv)) \<and>
   (map_of props ''name'' = Some (JString n) \<and> map_of props ''category'' = Some (JString c) \<and>
    map_of props ''completed'' = None \<longrightarrow>
      fst (post_items (JObject props) sv) =
        \<lparr>status = 200,
         body = ItemBody \<lparr>id' = currentId (storage sv), name = n, category = c,
                          completed = False\<rparr>\<rparr>)"
proof -
  have a: "(\<forall>props. reqBody \<noteq> JObject props) \<Longrightarrow>
      post_items reqBody sv =
        (\<lparr>status = 400, body = MessageBody ''Invalid item data''\<rparr>, sv)"
    by (rule post_items_Failure) (rule insert_not_object)
  have b: "(\<forall>s. map_of props ''name'' \<noteq> Some (JString s)) \<or>
    (\<forall>s. map_of props ''category'' \<noteq> Some (JString s)) \<Longrightarrow>
      post_items (JObject props) sv =
        (\<lparr>status = 400, body = MessageBody ''Invalid item data''\<rparr>, sv)"
    by (rule post_items_Failure) (rule insert_bad_field)
  have c: "map_of props ''name'' = Some (JString n) \<and>
      map_of props ''category'' = Some (JString c) \<and> map_of props ''completed'' = None \<Longrightarrow>
      fst (post_items (JObject props) sv) =
        \<lparr>status = 200,
         body = ItemBody \<lparr>id' = currentId (storage sv), name = n, category = c,
                          completed = False\<rparr>\<rparr>"
    by (simp add: post_items_def createItem_def Let_def)
  show ?thesis using a b c by blast
qed

theorem post_rejects_missing_or_non_text_fields_witness:
  "post_items (JArray []) server_new =
     (\<lparr>status = 400, body = MessageBody ''Invalid item data''\<rparr>, server_new) \<and>
   post_items (JObject [(''category'', JString ''dairy'')]) server_new =
     (\<lparr>status = 400, body = MessageBody ''Invalid item data''\<rparr>, server_new) \<and>
   post_items (JObject [(''name'', JString ''milk''), (''category'', JNumber 7)]) server_new =
     (\<lparr>status = 400, body = MessageBody ''Invalid item data''\<rparr>, server_new) \<and>
   fst (post_items (JObject [(''name'', JString ''milk''), (''category'', JString ''dairy'')])
          server_new) =
     \<lparr>status = 200,
      body = ItemBody \<lparr>id' = 1, name = ''milk'', category = ''dairy'', completed = False\<rparr>\<rparr>"
  using post_rejects_missing_or_non_text_fields
      [where reqBody = "JArray []" and sv = server_new]
    post_rejects_missing_or_non_text_fields
      [where props = "[(''category'', JString ''dairy'')]" and sv = server_new]
    post_rejects_missing_or_non_text_fields
      [where props = "[(''name'', JString ''milk''), (''category'', JNumber 7)]"
         and sv = server_new]
    post_rejects_missing_or_non_text_fields
      [where props = "[(''name'', JString ''milk''), (''category'', JString ''dairy'')]"
         and sv = server_new and n = "''milk''" and c = "''dairy''"]
  by (simp add: server_new_simps)

text \<open>A name that is the empty string is accepted, and the item is stored.\<close>

theorem empty_name_is_accepted:
  "fst (post_items (JObject [(''name'', JString ''''), (''category'', JString ''dairy'')])
          server_new) =
     \<lparr>status = 200,
      body = ItemBody \<lparr>id' = 1, name = '''', category = ''dairy'', completed = False\<rparr>\<rparr> \<and>
   getItems (storage (snd (post_items
       (JObject [(''name'', JString ''''), (''category'', JString ''dairy'')]) server_new))) =
     [\<lparr>id' = 1, name = '''', category = ''dairy'', completed = False\<rparr>]"
  by (simp add: post_items_def createItem_def Let_def server_new_simps getItems_def
      Map_values_def Map_set_def)

end
